theory Spec2Isabelle
  imports Main "HOL-Library.Multiset"
begin

section \<open>The item-order field customizer (SpfxItemOrderFieldCustomizer.ts)\<close>

text \<open>
  The customizer keeps the order of the rendered rows as an array of numbers
  (\<open>_rowOrder\<close>), reads the order shown on the page after a drag
  (\<open>getRowOrder\<close>), compares the two (\<open>hasChanged\<close>, \<open>changedRows\<close>)
  and writes the Order values of the moved rows back in one batch
  (\<open>saveChanges\<close>).
\<close>

subsection \<open>JavaScript values\<close>

text \<open>
  \<open>getRowOrder\<close> maps \<open>parseInt\<close> over the \<open>data-list-index\<close> attributes,
  so an element of an order array is an integer, or \<open>NaN\<close> where the attribute
  is missing or not a number.
\<close>

datatype jsnum = Num int | NaN

text \<open>
  Reading an array at an index: \<open>xs[i]\<close> is \<open>undefined\<close> (here \<open>None\<close>) outside
  the array, it never throws. \<open>arrayGet\<close> reads at a loop counter,
  \<open>arrayGetNum\<close> at a number taken from an order array (a negative number and
  \<open>NaN\<close> name no element).
\<close>

definition arrayGet :: "'a list \<Rightarrow> nat \<Rightarrow> 'a option" where
  "arrayGet xs i = (if i < length xs then Some (xs ! i) else None)"

fun arrayGetNum :: "'a list \<Rightarrow> jsnum \<Rightarrow> 'a option" where
  "arrayGetNum xs (Num k) = (if 0 \<le> k then arrayGet xs (nat k) else None)"
| "arrayGetNum xs NaN = None"

text \<open>
  The operator \<open>!==\<close> on two values that are each a number or \<open>undefined\<close>:
  \<open>NaN\<close> differs from everything, itself included; a number differs from
  \<open>undefined\<close>; otherwise the values are compared.
\<close>

fun strictNotEqual :: "jsnum option \<Rightarrow> jsnum option \<Rightarrow> bool" where
  "strictNotEqual (Some NaN) y = True"
| "strictNotEqual x (Some NaN) = True"
| "strictNotEqual x y = (x \<noteq> y)"

subsection \<open>Rows and changes\<close>

text \<open>
  \<open>IOrderedRow\<close> and \<open>IChangedRow\<close> are declared in files of their own; their
  fields are read off \<open>onRenderCell\<close> and \<open>changedRows\<close>. The types of the
  ID and of the Order value of a list item are left open.
\<close>

record ('i, 'v) IOrderedRow =
  Id' :: 'i
  Order :: 'v

record IChangedRow =
  listIndex :: jsnum
  position :: nat

subsection \<open>hasChanged and changedRows\<close>

text \<open>
  Both functions run \<open>for (i = 0; i < newOrder.length; i++)\<close>; the loop is
  the recursion on the counter \<open>i\<close>. \<open>hasChanged\<close> returns at the first
  difference, \<open>changedRows\<close> pushes an entry onto \<open>diffRows\<close> at each.
\<close>

function hasChanged_loop :: "jsnum list \<Rightarrow> jsnum list \<Rightarrow> nat \<Rightarrow> bool" where
  "hasChanged_loop prevOrder newOrder i =
     (if i < length newOrder then
        (if strictNotEqual (arrayGet newOrder i) (arrayGet prevOrder i) then True
         else hasChanged_loop prevOrder newOrder (Suc i))
      else False)"
  by pat_completeness auto
termination
  by (relation "measure (\<lambda>(prevOrder, newOrder, i). length newOrder - i)") auto

declare hasChanged_loop.simps [simp del]

definition hasChanged :: "jsnum list \<Rightarrow> jsnum list \<Rightarrow> bool" where
  "hasChanged prevOrder newOrder = hasChanged_loop prevOrder newOrder 0"

function changedRows_loop ::
  "jsnum list \<Rightarrow> jsnum list \<Rightarrow> nat \<Rightarrow> IChangedRow list \<Rightarrow> IChangedRow list" where
  "changedRows_loop prevOrder newOrder i diffRows =
     (if i < length newOrder then
        (if strictNotEqual (arrayGet newOrder i) (arrayGet prevOrder i) then
           changedRows_loop prevOrder newOrder (Suc i)
             (diffRows @ [\<lparr>listIndex = newOrder ! i, position = i\<rparr>])
         else changedRows_loop prevOrder newOrder (Suc i) diffRows)
      else diffRows)"
  by pat_completeness auto
termination
  by (relation "measure (\<lambda>(prevOrder, newOrder, i, diffRows). length newOrder - i)") auto

declare changedRows_loop.simps [simp del]

definition changedRows :: "jsnum list \<Rightarrow> jsnum list \<Rightarrow> IChangedRow list" where
  "changedRows prevOrder newOrder = changedRows_loop prevOrder newOrder 0 []"

subsection \<open>The customizer and the page\<close>

text \<open>
  \<open>TypeError\<close> is what JavaScript throws when a property is read off
  \<open>undefined\<close>; it is the only error the code below can raise by itself.
\<close>

datatype jsError = TypeError

text \<open>
  One queued request of the batch:
  \<open>lists.getById(list).items.getById(item).inBatch(itemBatch).update(props)\<close>
  with \<open>props\<close> holding the single property \<open>props[_orderField]\<close>.
\<close>

record ('i, 'v) ItemUpdate =
  inList :: string
  itemId :: 'i
  fieldName :: string
  fieldValue :: 'v

text \<open>
  The fields of the class, and what its methods change outside it:
  \<open>listId\<close> is \<open>context.pageContext.list.id.toString()\<close>;
  \<open>sortable\<close> says whether the jQuery UI sortable of the list page is enabled;
  \<open>loading\<close> holds the list-index values handed to \<open>showLoading\<close> since
  the last \<open>hideLoading\<close>; \<open>batches\<close> holds every batch handed to
  \<open>itemBatch.execute()\<close>, oldest first; \<open>errorLog\<close> holds what
  \<open>Log.error\<close> and \<open>console.log\<close> were given.
\<close>

record ('i, 'v, 'e) customizer =
  rowOrder :: "jsnum list"
  rowMap :: "('i, 'v) IOrderedRow list"
  orderField :: string
  listId :: string
  sortable :: bool
  loading :: "jsnum list"
  batches :: "('i, 'v) ItemUpdate list list"
  errorLog :: "'e list"

text \<open>
  How the promise of \<open>itemBatch.execute()\<close> settles is decided by the server;
  it is an argument of the model.
\<close>

datatype 'e batchResult = Resolved | Rejected 'e

definition showLoading ::
  "('i, 'v, 'e) customizer \<Rightarrow> jsnum \<Rightarrow> ('i, 'v, 'e) customizer" where
  "showLoading st li = st\<lparr>loading := loading st @ [li]\<rparr>"

definition hideLoading :: "('i, 'v, 'e) customizer \<Rightarrow> ('i, 'v, 'e) customizer" where
  "hideLoading st = st\<lparr>loading := []\<rparr>"

subsection \<open>saveChanges and onOrderChanged\<close>

text \<open>
  The body of \<open>dirtyRows.forEach\<close>: show the loading indicator, read
  \<open>_rowMap[row.position].Order\<close>, then \<open>_rowMap[row.listIndex].Id\<close>, and
  queue the update. Either read throws when the row map has no such element,
  and the exception leaves \<open>saveChanges\<close>.
\<close>

fun saveChanges_forEach ::
  "('i, 'v, 'e) customizer \<Rightarrow> IChangedRow list \<Rightarrow> ('i, 'v) ItemUpdate list \<Rightarrow>
   jsError + (('i, 'v, 'e) customizer \<times> ('i, 'v) ItemUpdate list)" where
  "saveChanges_forEach st [] itemBatch = Inr (st, itemBatch)"
| "saveChanges_forEach st (row # rows) itemBatch =
     (let st1 = showLoading st (listIndex row) in
      case arrayGet (rowMap st1) (position row) of
        None \<Rightarrow> Inl TypeError
      | Some atPosition \<Rightarrow>
          (case arrayGetNum (rowMap st1) (listIndex row) of
             None \<Rightarrow> Inl TypeError
           | Some atListIndex \<Rightarrow>
               saveChanges_forEach st1 rows
                 (itemBatch @
                  [\<lparr>inList = listId st1, itemId = Id' atListIndex,
                    fieldName = orderField st1, fieldValue = Order atPosition\<rparr>])))"

text \<open>
  \<open>saveChanges\<close>, with the order \<open>getRowOrder()\<close> reads off the page as the
  argument \<open>pageOrder\<close>. The result is the state once the promise has
  settled: the \<open>then\<close> handler on success, the \<open>catch\<close> handler on failure.
\<close>

definition saveChanges ::
  "('i, 'v, 'e) customizer \<Rightarrow> jsnum list \<Rightarrow> 'e batchResult \<Rightarrow>
   jsError + ('i, 'v, 'e) customizer" where
  "saveChanges st pageOrder settled =
     (let newOrder = pageOrder;
          dirtyRows = changedRows (rowOrder st) newOrder
      in case saveChanges_forEach st dirtyRows [] of
           Inl thrown \<Rightarrow> Inl thrown
         | Inr (st1, itemBatch) \<Rightarrow>
             (let st2 = st1\<lparr>batches := batches st1 @ [itemBatch]\<rparr>
              in case settled of
                   Resolved \<Rightarrow>
                     Inr ((hideLoading st2)\<lparr>rowOrder := newOrder, sortable := True\<rparr>)
                 | Rejected err \<Rightarrow>
                     Inr (st2\<lparr>errorLog := errorLog st2 @ [err]\<rparr>)))"

text \<open>
  \<open>onOrderChanged\<close>, the handler of the sortable's stop event: disable the
  sortable, read the page, and save when something moved.
\<close>

definition onOrderChanged ::
  "('i, 'v, 'e) customizer \<Rightarrow> jsnum list \<Rightarrow> 'e batchResult \<Rightarrow>
   jsError + ('i, 'v, 'e) customizer" where
  "onOrderChanged st pageOrder settled =
     (let st1 = st\<lparr>sortable := False\<rparr>;
          newOrder = pageOrder
      in if hasChanged (rowOrder st1) newOrder then saveChanges st1 pageOrder settled
         else Inr (st1\<lparr>sortable := True\<rparr>))"

subsection \<open>Orderings\<close>

text \<open>
  The orderings the specification speaks of: a permutation of the indices
  \<open>0..N-1\<close>, with \<open>N\<close> its length. A list of length \<open>N\<close> that holds each of
  the \<open>N\<close> indices holds each of them once.
\<close>

definition isOrdering :: "jsnum list \<Rightarrow> bool" where
  "isOrdering ord = (\<forall>k \<in> set [0..<length ord]. Num (int k) \<in> set ord)"

text \<open>
  The precondition the specification puts on \<open>diff\<close> and \<open>hasChanged\<close>: two
  orderings of the same length.
\<close>

definition permutationPair :: "jsnum list \<Rightarrow> jsnum list \<Rightarrow> bool" where
  "permutationPair baseline observed =
     (length baseline = length observed \<and> isOrdering baseline \<and> isOrdering observed)"

text \<open>
  The update batch as the specification words it, to be compared with the
  one \<open>saveChanges\<close> builds: each change gives an update keyed by the
  identifier of the row originally at \<open>newPosition\<close> (here \<open>position\<close>),
  carrying the order value recorded for the row at \<open>originalIndex\<close> (here
  \<open>listIndex\<close>).
\<close>

definition applyChanges_as_specified ::
  "string \<Rightarrow> string \<Rightarrow> IChangedRow list \<Rightarrow> ('i, 'v) IOrderedRow list \<Rightarrow>
   ('i, 'v) ItemUpdate list" where
  "applyChanges_as_specified list field changes rowRecords =
     map (\<lambda>c. \<lparr>inList = list,
                itemId = Id' (the (arrayGet rowRecords (position c))),
                fieldName = field,
                fieldValue = Order (the (arrayGetNum rowRecords (listIndex c)))\<rparr>)
       changes"

section \<open>The loops in closed form\<close>

lemma changedRows_loop_eq:
  "changedRows_loop p n i acc =
     acc @ map (\<lambda>j. \<lparr>listIndex = n ! j, position = j\<rparr>)
            (filter (\<lambda>j. strictNotEqual (arrayGet n j) (arrayGet p j)) [i..<length n])"
proof (induction p n i acc rule: changedRows_loop.induct)
  case (1 p n i acc)
  show ?case
  proof (cases "i < length n")
    case True
    then show ?thesis
      using "1.IH" by (subst changedRows_loop.simps) (simp add: upt_conv_Cons)
  next
    case False
    then show ?thesis
      by (subst changedRows_loop.simps) simp
  qed
qed

lemma hasChanged_loop_eq:
  "hasChanged_loop p n i =
     (\<exists>j. i \<le> j \<and> j < length n \<and> strictNotEqual (arrayGet n j) (arrayGet p j))"
proof (induction p n i rule: hasChanged_loop.induct)
  case (1 p n i)
  show ?case
  proof (cases "i < length n")
    case True
    note lt = this
    show ?thesis
    proof (cases "strictNotEqual (arrayGet n i) (arrayGet p i)")
      case True
      with lt show ?thesis
        by (subst hasChanged_loop.simps) auto
    next
      case False
      with lt "1.IH" have "hasChanged_loop p n i =
        (\<exists>j. Suc i \<le> j \<and> j < length n \<and> strictNotEqual (arrayGet n j) (arrayGet p j))"
        by (subst hasChanged_loop.simps) simp
      also have "\<dots> =
        (\<exists>j. i \<le> j \<and> j < length n \<and> strictNotEqual (arrayGet n j) (arrayGet p j))"
        using False by (metis Suc_leD Suc_leI le_neq_implies_less)
      finally show ?thesis .
    qed
  next
    case False
    then show ?thesis
      by (subst hasChanged_loop.simps) auto
  qed
qed

lemma changedRows_eq:
  "changedRows p n =
     map (\<lambda>j. \<lparr>listIndex = n ! j, position = j\<rparr>)
       (filter (\<lambda>j. strictNotEqual (arrayGet n j) (arrayGet p j)) [0..<length n])"
  by (simp add: changedRows_def changedRows_loop_eq)

lemma hasChanged_eq:
  "hasChanged p n = (\<exists>j<length n. strictNotEqual (arrayGet n j) (arrayGet p j))"
  by (simp add: hasChanged_def hasChanged_loop_eq)

lemma strictNotEqual_same: "strictNotEqual (Some x) (Some x) = (x = NaN)"
  by (cases x) simp_all

lemma strictNotEqual_undefined: "strictNotEqual (Some x) None"
  by (cases x) simp_all

lemma strictNotEqual_Num: "strictNotEqual (Some (Num a)) (Some (Num b)) = (a \<noteq> b)"
  by simp

lemma changedRows_same:
  assumes "NaN \<notin> set ord"
  shows "changedRows ord ord = []"
proof -
  have "\<not> strictNotEqual (arrayGet ord j) (arrayGet ord j)" if "j < length ord" for j
    using that assms by (auto simp: arrayGet_def strictNotEqual_same in_set_conv_nth)
  then show ?thesis
    by (simp add: changedRows_eq filter_empty_conv)
qed

lemma hasChanged_same:
  assumes "NaN \<notin> set ord"
  shows "\<not> hasChanged ord ord"
proof -
  have "\<not> strictNotEqual (arrayGet ord j) (arrayGet ord j)" if "j < length ord" for j
    using that assms by (auto simp: arrayGet_def strictNotEqual_same in_set_conv_nth)
  then show ?thesis
    by (simp add: hasChanged_eq)
qed

lemma arrayGet_take: "j < k \<Longrightarrow> arrayGet (take k xs) j = arrayGet xs j"
  by (simp add: arrayGet_def)

lemma changedRows_take:
  "changedRows (take (length n) p) n = changedRows p n"
  unfolding changedRows_eq
  by (rule arg_cong [where f = "map _"], rule filter_cong) (simp_all add: arrayGet_take)

lemma hasChanged_take:
  "hasChanged (take (length n) p) n = hasChanged p n"
  by (auto simp: hasChanged_eq arrayGet_take)

lemma changedRows_entries:
  "row \<in> set (changedRows p n) \<Longrightarrow>
   position row < length n \<and> listIndex row = n ! position row"
  by (auto simp: changedRows_eq)

section \<open>The diff\<close>

text \<open>
  C1. For a baseline and an observed ordering of the same length,
  \<open>changedRows\<close> returns, in ascending position, one entry
  \<open>{listIndex: observed[i], position: i}\<close> for each position \<open>i\<close> with
  \<open>observed[i] !== baseline[i]\<close>, and nothing else.
\<close>

theorem changedRows_differing_positions:
  "length baseline = length observed \<Longrightarrow>
   changedRows baseline observed =
     map (\<lambda>i. \<lparr>listIndex = observed ! i, position = i\<rparr>)
       (filter (\<lambda>i. strictNotEqual (Some (observed ! i)) (Some (baseline ! i)))
          [0..<length observed])"
  unfolding changedRows_eq
  by (rule arg_cong [where f = "map _"], rule filter_cong) (simp_all add: arrayGet_def)

theorem changedRows_differing_positions_witness:
  "length [Num 0, Num 1, Num 2] = length [Num 2, Num 0, Num 1] \<and>
   changedRows [Num 0, Num 1, Num 2] [Num 2, Num 0, Num 1] =
     [\<lparr>listIndex = Num 2, position = 0\<rparr>, \<lparr>listIndex = Num 0, position = 1\<rparr>,
      \<lparr>listIndex = Num 1, position = 2\<rparr>]"
  using changedRows_differing_positions [of "[Num 0, Num 1, Num 2]" "[Num 2, Num 0, Num 1]"]
  by (simp add: upt_conv_Cons)

text \<open>
  C4. \<open>hasChanged\<close> is true exactly when \<open>changedRows\<close> returns an entry,
  for any two arrays.
\<close>

theorem hasChanged_iff_changedRows_nonempty:
  "hasChanged a b = (changedRows a b \<noteq> [])"
  by (auto simp add: hasChanged_eq changedRows_eq filter_empty_conv)

text \<open>
  C8. Baseline \<open>[0,1,2,3]\<close> against observed \<open>[0,2,1,3]\<close> gives the two entries
  \<open>{listIndex: 2, position: 1}\<close> and \<open>{listIndex: 1, position: 2}\<close>, in that
  order.
\<close>

theorem changedRows_middle_swap:
  "changedRows [Num 0, Num 1, Num 2, Num 3] [Num 0, Num 2, Num 1, Num 3] =
     [\<lparr>listIndex = Num 2, position = 1\<rparr>, \<lparr>listIndex = Num 1, position = 2\<rparr>]"
  by code_simp

text \<open>
  C9 as stated fails for arrays that hold \<open>NaN\<close>, which \<open>parseInt\<close> returns
  for a row without a list index: \<open>[NaN]\<close> is a proper prefix of
  \<open>[NaN, 0]\<close>, yet \<open>NaN !== NaN\<close> is true, so \<open>hasChanged\<close> returns true and
  \<open>changedRows\<close> returns an entry.
\<close>

theorem reconciler_prefix_with_NaN:
  "length [NaN] < length [NaN, Num 0] \<and>
   take (length [NaN]) [NaN, Num 0] = [NaN] \<and>
   hasChanged [NaN, Num 0] [NaN] \<and>
   changedRows [NaN, Num 0] [NaN] = [\<lparr>listIndex = NaN, position = 0\<rparr>]"
  by (simp add: hasChanged_def hasChanged_loop.simps changedRows_def changedRows_loop.simps
        arrayGet_def)

text \<open>
  C9, amended. For any two arrays, of whatever lengths, \<open>hasChanged\<close> and
  \<open>changedRows\<close> look at the indices below \<open>newOrder.length\<close> only:
  every entry has its position there, and the elements of \<open>prevOrder\<close> from
  \<open>newOrder.length\<close> on change nothing. An index at or beyond
  \<open>prevOrder.length\<close> counts as changed, the missing baseline element being
  \<open>undefined\<close>. When \<open>newOrder\<close> is a proper prefix of \<open>prevOrder\<close> and
  holds no \<open>NaN\<close>, \<open>hasChanged\<close> is false and \<open>changedRows\<close> is empty.
\<close>

theorem reconciler_index_range:
  "(\<forall>row \<in> set (changedRows prevOrder newOrder). position row < length newOrder) \<and>
   hasChanged prevOrder newOrder = hasChanged (take (length newOrder) prevOrder) newOrder \<and>
   changedRows prevOrder newOrder = changedRows (take (length newOrder) prevOrder) newOrder \<and>
   (length prevOrder \<le> i \<and> i < length newOrder \<longrightarrow>
      hasChanged prevOrder newOrder \<and>
      \<lparr>listIndex = newOrder ! i, position = i\<rparr> \<in> set (changedRows prevOrder newOrder)) \<and>
   (length newOrder < length prevOrder \<and> take (length newOrder) prevOrder = newOrder \<and>
    NaN \<notin> set newOrder \<longrightarrow>
      \<not> hasChanged prevOrder newOrder \<and> changedRows prevOrder newOrder = [])"
proof (intro conjI impI)
  show "\<forall>row \<in> set (changedRows prevOrder newOrder). position row < length newOrder"
    using changedRows_entries by blast
  show "hasChanged prevOrder newOrder = hasChanged (take (length newOrder) prevOrder) newOrder"
    by (simp add: hasChanged_take)
  show "changedRows prevOrder newOrder = changedRows (take (length newOrder) prevOrder) newOrder"
    by (simp add: changedRows_take)
next
  assume a: "length prevOrder \<le> i \<and> i < length newOrder"
  then have d: "strictNotEqual (arrayGet newOrder i) (arrayGet prevOrder i)"
    by (simp add: arrayGet_def strictNotEqual_undefined)
  with a show "hasChanged prevOrder newOrder"
    by (auto simp: hasChanged_eq)
  from a d show "\<lparr>listIndex = newOrder ! i, position = i\<rparr> \<in> set (changedRows prevOrder newOrder)"
    by (auto simp: changedRows_eq)
next
  assume a: "length newOrder < length prevOrder \<and>
    take (length newOrder) prevOrder = newOrder \<and> NaN \<notin> set newOrder"
  then have t: "take (length newOrder) prevOrder = newOrder" and n: "NaN \<notin> set newOrder"
    by simp_all
  have "hasChanged prevOrder newOrder = hasChanged (take (length newOrder) prevOrder) newOrder"
    by (simp add: hasChanged_take)
  also have "\<dots> = hasChanged newOrder newOrder"
    by (simp only: t)
  finally show "\<not> hasChanged prevOrder newOrder"
    using hasChanged_same [OF n] by simp
  have "changedRows prevOrder newOrder = changedRows (take (length newOrder) prevOrder) newOrder"
    by (simp add: changedRows_take)
  also have "\<dots> = changedRows newOrder newOrder"
    by (simp only: t)
  finally show "changedRows prevOrder newOrder = []"
    using changedRows_same [OF n] by simp
qed

theorem reconciler_index_range_witness:
  "length [Num 0] \<le> 1 \<and> 1 < length [Num 0, Num 2] \<and>
   hasChanged [Num 0] [Num 0, Num 2] \<and>
   \<lparr>listIndex = [Num 0, Num 2] ! 1, position = 1\<rparr> \<in> set (changedRows [Num 0] [Num 0, Num 2]) \<and>
   position \<lparr>listIndex = [Num 0, Num 2] ! 1, position = 1\<rparr> < length [Num 0, Num 2] \<and>
   length [Num 0, Num 1] < length [Num 0, Num 1, Num 2] \<and>
   take (length [Num 0, Num 1]) [Num 0, Num 1, Num 2] = [Num 0, Num 1] \<and>
   NaN \<notin> set [Num 0, Num 1] \<and>
   \<not> hasChanged [Num 0, Num 1, Num 2] [Num 0, Num 1] \<and>
   changedRows [Num 0, Num 1, Num 2] [Num 0, Num 1] = []"
proof -
  have h1: "length [Num 0] \<le> 1 \<and> 1 < length [Num 0, Num 2]"
    by simp
  have h2: "length [Num 0, Num 1] < length [Num 0, Num 1, Num 2] \<and>
    take (length [Num 0, Num 1]) [Num 0, Num 1, Num 2] = [Num 0, Num 1] \<and>
    NaN \<notin> set [Num 0, Num 1]"
    by simp
  from reconciler_index_range [of "[Num 0]" "[Num 0, Num 2]" 1] h1
  have c1: "hasChanged [Num 0] [Num 0, Num 2] \<and>
    \<lparr>listIndex = [Num 0, Num 2] ! 1, position = 1\<rparr> \<in> set (changedRows [Num 0] [Num 0, Num 2])"
    by blast
  from reconciler_index_range [of "[Num 0, Num 1, Num 2]" "[Num 0, Num 1]"] h2
  have c2: "\<not> hasChanged [Num 0, Num 1, Num 2] [Num 0, Num 1] \<and>
    changedRows [Num 0, Num 1, Num 2] [Num 0, Num 1] = []"
    by blast
  from reconciler_index_range [of "[Num 0]" "[Num 0, Num 2]"] c1
  have c0: "position \<lparr>listIndex = [Num 0, Num 2] ! 1, position = 1\<rparr> < length [Num 0, Num 2]"
    by blast
  from h1 h2 c0 c1 c2 show ?thesis by blast
qed

text \<open>
  C6 as stated fails. Neither function holds a \<open>throw\<close> or an assertion, and
  reading an array past its end gives \<open>undefined\<close>, so both return a value
  on every pair of arrays. A baseline longer than the observed order, an
  order that repeats an index, and an observed order longer than the baseline
  all break the precondition, and all get an ordinary result.
\<close>

theorem reconciler_returns_outside_precondition:
  "\<not> permutationPair [Num 0, Num 1, Num 2] [Num 0, Num 1] \<and>
   \<not> hasChanged [Num 0, Num 1, Num 2] [Num 0, Num 1] \<and>
   changedRows [Num 0, Num 1, Num 2] [Num 0, Num 1] = [] \<and>
   \<not> permutationPair [Num 0, Num 0] [Num 0, Num 0] \<and>
   \<not> hasChanged [Num 0, Num 0] [Num 0, Num 0] \<and>
   changedRows [Num 0, Num 0] [Num 0, Num 0] = [] \<and>
   \<not> permutationPair [Num 0] [Num 0, Num 7] \<and>
   hasChanged [Num 0] [Num 0, Num 7] \<and>
   changedRows [Num 0] [Num 0, Num 7] = [\<lparr>listIndex = Num 7, position = 1\<rparr>]"
  by (simp add: permutationPair_def isOrdering_def hasChanged_def hasChanged_loop.simps
      changedRows_def changedRows_loop.simps arrayGet_def upt_conv_Cons)

text \<open>
  C6, amended. \<open>hasChanged\<close> and \<open>changedRows\<close> check no precondition and
  raise no error: for any two arrays, orderings of one length or not, the
  result is the comparison of \<open>newOrder[i]\<close> with \<open>prevOrder[i]\<close> at the
  indices \<open>i\<close> of \<open>newOrder\<close>, an element missing from \<open>prevOrder\<close>
  comparing unequal.
\<close>

theorem reconciler_checks_nothing:
  "hasChanged prevOrder newOrder =
     (\<exists>i<length newOrder. strictNotEqual (arrayGet newOrder i) (arrayGet prevOrder i)) \<and>
   changedRows prevOrder newOrder =
     map (\<lambda>i. \<lparr>listIndex = newOrder ! i, position = i\<rparr>)
       (filter (\<lambda>i. strictNotEqual (arrayGet newOrder i) (arrayGet prevOrder i))
          [0..<length newOrder])"
  by (simp add: hasChanged_eq changedRows_eq)

section \<open>Orderings that differ\<close>

text \<open>
  An ordering holds each index once, so two orderings of one length are
  rearrangements of each other, and two lists that are rearrangements of each
  other cannot differ at one position only.
\<close>

lemma isOrdering_set:
  assumes "isOrdering xs"
  shows "set xs = (\<lambda>k. Num (int k)) ` {0..<length xs}"
proof -
  let ?S = "(\<lambda>k. Num (int k)) ` {0..<length xs}"
  have sub: "?S \<subseteq> set xs"
    using assms by (auto simp: isOrdering_def)
  have "inj_on (\<lambda>k. Num (int k)) {0..<length xs}"
    by (simp add: inj_on_def)
  then have "card ?S = length xs"
    by (simp add: card_image)
  then have "card (set xs) \<le> card ?S"
    by (simp add: card_length)
  with sub have "?S = set xs"
    by (intro card_seteq) auto
  then show ?thesis by simp
qed

lemma isOrdering_no_NaN: "isOrdering xs \<Longrightarrow> NaN \<notin> set xs"
  by (auto simp: isOrdering_set)

lemma isOrdering_mset:
  assumes "isOrdering xs"
  shows "mset xs = mset (map (\<lambda>k. Num (int k)) [0..<length xs])"
proof -
  have s: "set xs = (\<lambda>k. Num (int k)) ` {0..<length xs}"
    by (rule isOrdering_set [OF assms])
  have "card (set xs) = length xs"
    unfolding s by (simp add: card_image inj_on_def)
  then have "distinct xs"
    by (rule card_distinct)
  moreover have "distinct (map (\<lambda>k. Num (int k)) [0..<length xs])"
    by (simp add: distinct_map inj_on_def)
  moreover have "set xs = set (map (\<lambda>k. Num (int k)) [0..<length xs])"
    using s by simp
  ultimately show ?thesis
    by (simp only: set_eq_iff_mset_eq_distinct)
qed

lemma single_difference:
  assumes len: "length a = length b" and ms: "mset a = mset b" and i: "i < length a"
    and rest: "\<forall>j<length a. j \<noteq> i \<longrightarrow> a ! j = b ! j"
  shows "a ! i = b ! i"
proof -
  have "b = a[i := b ! i]"
  proof (rule nth_equalityI)
    show "length b = length (a[i := b ! i])" using len by simp
  next
    fix k assume "k < length b"
    then show "b ! k = a[i := b ! i] ! k"
      using len rest by (cases "k = i") (simp_all add: nth_list_update)
  qed
  then have "mset b = add_mset (b ! i) (mset a - {#a ! i#})"
    using i by (metis mset_update)
  moreover have "mset a = add_mset (a ! i) (mset a - {#a ! i#})"
    using i by simp
  ultimately have "add_mset (a ! i) (mset a - {#a ! i#}) = add_mset (b ! i) (mset a - {#a ! i#})"
    using ms by simp
  then show ?thesis by simp
qed

lemma two_differences:
  assumes len: "length a = length b" and ms: "mset a = mset b" and ne: "a \<noteq> b"
  shows "\<exists>i j. i < length a \<and> j < length a \<and> i \<noteq> j \<and> a ! i \<noteq> b ! i \<and> a ! j \<noteq> b ! j"
proof -
  from len ne obtain i where i: "i < length a" "a ! i \<noteq> b ! i"
    by (meson nth_equalityI)
  with single_difference [OF len ms i(1)]
  obtain j where "j < length a" "j \<noteq> i" "a ! j \<noteq> b ! j"
    by blast
  with i show ?thesis by blast
qed

lemma length_filter_two:
  assumes "i < n" "j < n" "i \<noteq> j" "P i" "P j"
  shows "2 \<le> length (filter P [0..<n])"
proof -
  have "{i, j} \<subseteq> set (filter P [0..<n])"
    using assms by auto
  then have "card {i, j} \<le> card (set (filter P [0..<n]))"
    by (intro card_mono) auto
  also have "\<dots> \<le> length (filter P [0..<n])"
    by (rule card_length)
  finally show ?thesis using assms(3) by simp
qed

text \<open>
  C10. Two different orderings of the same length differ at two positions or
  more: \<open>changedRows\<close> returns at least two entries, never exactly one.
\<close>

theorem changedRows_distinct_orderings:
  assumes a: "isOrdering a" and b: "isOrdering b" and len: "length a = length b"
    and ne: "a \<noteq> b"
  shows "2 \<le> length (changedRows a b)"
proof -
  have "mset a = mset b"
    using isOrdering_mset [OF a] isOrdering_mset [OF b] len by simp
  from two_differences [OF len this ne]
  obtain i j where ij: "i < length a" "j < length a" "i \<noteq> j" "a ! i \<noteq> b ! i" "a ! j \<noteq> b ! j"
    by blast
  have nn: "\<And>k. k < length a \<Longrightarrow> a ! k \<noteq> NaN \<and> b ! k \<noteq> NaN"
    using isOrdering_no_NaN [OF a] isOrdering_no_NaN [OF b] len by (metis nth_mem)
  have d: "\<And>k. k < length a \<Longrightarrow> a ! k \<noteq> b ! k \<Longrightarrow>
             strictNotEqual (arrayGet b k) (arrayGet a k)"
  proof -
    fix k assume k: "k < length a" "a ! k \<noteq> b ! k"
    from nn [OF k(1)] obtain x y where "a ! k = Num x" "b ! k = Num y"
      by (metis jsnum.exhaust)
    with k len show "strictNotEqual (arrayGet b k) (arrayGet a k)"
      by (simp add: arrayGet_def)
  qed
  have "2 \<le> length (filter (\<lambda>k. strictNotEqual (arrayGet b k) (arrayGet a k)) [0..<length b])"
    using ij d len by (intro length_filter_two [of i _ j]) auto
  then show ?thesis
    by (simp add: changedRows_eq)
qed

theorem changedRows_distinct_orderings_witness:
  "isOrdering [Num 0, Num 1, Num 2] \<and> isOrdering [Num 1, Num 0, Num 2] \<and>
   length [Num 0, Num 1, Num 2] = length [Num 1, Num 0, Num 2] \<and>
   [Num 0, Num 1, Num 2] \<noteq> [Num 1, Num 0, Num 2] \<and>
   2 \<le> length (changedRows [Num 0, Num 1, Num 2] [Num 1, Num 0, Num 2])"
proof -
  have a: "isOrdering [Num 0, Num 1, Num 2]" by (simp add: isOrdering_def upt_conv_Cons)
  have b: "isOrdering [Num 1, Num 0, Num 2]" by (simp add: isOrdering_def upt_conv_Cons)
  have l: "length [Num 0, Num 1, Num 2] = length [Num 1, Num 0, Num 2]" by simp
  have n: "[Num 0, Num 1, Num 2] \<noteq> [Num 1, Num 0, Num 2]" by simp
  from changedRows_distinct_orderings [OF a b l n] a b l n show ?thesis by blast
qed

section \<open>Saving the changes\<close>

text \<open>
  What the \<open>forEach\<close> loop of \<open>saveChanges\<close> leaves behind when it does not
  throw: a loading indicator per changed row and one queued update per changed
  row, in the order of \<open>changedRows\<close>; and when it is sure not to throw.
\<close>

lemma showLoading_fields:
  "rowMap (showLoading st li) = rowMap st"
  "listId (showLoading st li) = listId st"
  "orderField (showLoading st li) = orderField st"
  "loading (showLoading st li) = loading st @ [li]"
  by (simp_all add: showLoading_def)

lemma saveChanges_forEach_step:
  assumes "saveChanges_forEach st (row # rows) b = Inr r"
  shows "\<exists>x y.
    arrayGet (rowMap st) (position row) = Some x \<and>
    arrayGetNum (rowMap st) (listIndex row) = Some y \<and>
    saveChanges_forEach (showLoading st (listIndex row)) rows
       (b @ [\<lparr>inList = listId st, itemId = Id' y, fieldName = orderField st,
              fieldValue = Order x\<rparr>]) = Inr r"
  using assms by (auto simp: Let_def showLoading_fields split: option.splits)

lemma saveChanges_forEach_state:
  fixes st :: "('i, 'v, 'e) customizer"
  shows "saveChanges_forEach st rows b = Inr (st', b') \<Longrightarrow>
   st' = st\<lparr>loading := loading st @ map listIndex rows\<rparr>"
proof (induction rows arbitrary: st b)
  case Nil
  then show ?case by simp
next
  case (Cons row rows)
  from saveChanges_forEach_step [OF Cons.prems]
  obtain x y :: "('i, 'v) IOrderedRow" where
    rec: "saveChanges_forEach (showLoading st (listIndex row)) rows
            (b @ [\<lparr>inList = listId st, itemId = Id' y, fieldName = orderField st,
                   fieldValue = Order x\<rparr>]) = Inr (st', b')"
    by blast
  from Cons.IH [OF rec] show ?case
    by (simp add: showLoading_def)
qed

lemma saveChanges_forEach_batch:
  fixes st :: "('i, 'v, 'e) customizer"
  shows "saveChanges_forEach st rows b = Inr (st', b') \<Longrightarrow>
   length b' = length b + length rows \<and> take (length b) b' = b \<and>
   (\<forall>j<length rows. \<exists>k.
      listIndex (rows ! j) = Num (int k) \<and> k < length (rowMap st) \<and>
      position (rows ! j) < length (rowMap st) \<and>
      b' ! (length b + j) =
        \<lparr>inList = listId st, itemId = Id' (rowMap st ! k), fieldName = orderField st,
         fieldValue = Order (rowMap st ! position (rows ! j))\<rparr>)"
proof (induction rows arbitrary: st b)
  case Nil
  then show ?case by simp
next
  case (Cons row rows)
  let ?st1 = "showLoading st (listIndex row)"
  from saveChanges_forEach_step [OF Cons.prems]
  obtain x y :: "('i, 'v) IOrderedRow" where
    x: "arrayGet (rowMap st) (position row) = Some x" and
    y: "arrayGetNum (rowMap st) (listIndex row) = Some y" and
    rec: "saveChanges_forEach ?st1 rows
            (b @ [\<lparr>inList = listId st, itemId = Id' y, fieldName = orderField st,
                   fieldValue = Order x\<rparr>]) = Inr (st', b')"
    by blast
  let ?u = "\<lparr>inList = listId st, itemId = Id' y, fieldName = orderField st,
             fieldValue = Order x\<rparr>"
  from x have px: "position row < length (rowMap st)" "x = rowMap st ! position row"
    by (auto simp: arrayGet_def split: if_splits)
  from y obtain k where k: "listIndex row = Num (int k)" "k < length (rowMap st)"
      "y = rowMap st ! k"
    by (cases "listIndex row") (auto simp: arrayGet_def split: if_splits intro: that [of "nat _"])
  note ih = Cons.IH [OF rec]
  have same: "rowMap ?st1 = rowMap st" "listId ?st1 = listId st" "orderField ?st1 = orderField st"
    by (simp_all add: showLoading_fields)
  from ih have len: "length b' = length (b @ [?u]) + length rows"
    and tk: "take (length (b @ [?u])) b' = b @ [?u]"
    and rest: "\<forall>j<length rows. \<exists>k.
      listIndex (rows ! j) = Num (int k) \<and> k < length (rowMap st) \<and>
      position (rows ! j) < length (rowMap st) \<and>
      b' ! (length (b @ [?u]) + j) =
        \<lparr>inList = listId st, itemId = Id' (rowMap st ! k), fieldName = orderField st,
         fieldValue = Order (rowMap st ! position (rows ! j))\<rparr>"
    unfolding same by blast+
  have l: "length b' = length b + length (row # rows)"
    using len by simp
  have t: "take (length b) b' = b"
  proof -
    have "take (length b) (take (length (b @ [?u])) b') = take (length b) (b @ [?u])"
      by (simp only: tk)
    then show ?thesis by (simp add: min_def)
  qed
  have h: "b' ! length b = ?u"
  proof -
    have "b' ! length b = take (length (b @ [?u])) b' ! length b"
      by simp
    also have "\<dots> = (b @ [?u]) ! length b"
      by (simp only: tk)
    finally show ?thesis by simp
  qed
  have "\<forall>j<length (row # rows). \<exists>k.
      listIndex ((row # rows) ! j) = Num (int k) \<and> k < length (rowMap st) \<and>
      position ((row # rows) ! j) < length (rowMap st) \<and>
      b' ! (length b + j) =
        \<lparr>inList = listId st, itemId = Id' (rowMap st ! k), fieldName = orderField st,
         fieldValue = Order (rowMap st ! position ((row # rows) ! j))\<rparr>"
  proof (intro allI impI)
    fix j assume j: "j < length (row # rows)"
    show "\<exists>k. listIndex ((row # rows) ! j) = Num (int k) \<and> k < length (rowMap st) \<and>
      position ((row # rows) ! j) < length (rowMap st) \<and>
      b' ! (length b + j) =
        \<lparr>inList = listId st, itemId = Id' (rowMap st ! k), fieldName = orderField st,
         fieldValue = Order (rowMap st ! position ((row # rows) ! j))\<rparr>"
    proof (cases j)
      case 0
      with k px h show ?thesis by auto
    next
      case (Suc j')
      with j have "j' < length rows" by simp
      with rest Suc show ?thesis by simp
    qed
  qed
  with l t show ?case by blast
qed

lemma saveChanges_forEach_returns:
  fixes st :: "('i, 'v, 'e) customizer"
  assumes "\<forall>row \<in> set rows. position row < length (rowMap st) \<and>
             (\<exists>k<length (rowMap st). listIndex row = Num (int k))"
  shows "\<exists>r. saveChanges_forEach st rows b = Inr r"
  using assms
proof (induction rows arbitrary: st b)
  case Nil
  then show ?case by simp
next
  case (Cons row rows)
  from Cons.prems obtain k where
    p: "position row < length (rowMap st)" and
    k: "k < length (rowMap st)" "listIndex row = Num (int k)"
    by auto
  have "\<forall>r \<in> set rows. position r < length (rowMap (showLoading st (listIndex row))) \<and>
          (\<exists>k<length (rowMap (showLoading st (listIndex row))). listIndex r = Num (int k))"
    using Cons.prems by (simp add: showLoading_fields)
  from Cons.IH [OF this] p k show ?case
    by (simp add: Let_def arrayGet_def showLoading_fields)
qed

lemma arrayGetNum_Some:
  "arrayGetNum xs x = Some y \<Longrightarrow> \<exists>k<length xs. x = Num (int k)"
  by (cases x) (auto simp: arrayGet_def split: if_splits intro: exI [of _ "nat _"])

lemma saveChanges_returns:
  fixes st :: "('i, 'v, 'e) customizer"
  assumes len: "length pageOrder \<le> length (rowMap st)"
    and rng: "\<forall>x \<in> set pageOrder. \<exists>k<length (rowMap st). x = Num (int k)"
  shows "\<exists>st'. saveChanges st pageOrder settled = Inr st'"
proof -
  have "\<forall>row \<in> set (changedRows (rowOrder st) pageOrder).
          position row < length (rowMap st) \<and>
          (\<exists>k<length (rowMap st). listIndex row = Num (int k))"
  proof
    fix row assume "row \<in> set (changedRows (rowOrder st) pageOrder)"
    then have r: "position row < length pageOrder" "listIndex row = pageOrder ! position row"
      using changedRows_entries by blast+
    then have "listIndex row \<in> set pageOrder" by simp
    with rng r len show "position row < length (rowMap st) \<and>
          (\<exists>k<length (rowMap st). listIndex row = Num (int k))"
      by auto
  qed
  from saveChanges_forEach_returns [OF this]
  obtain r where "saveChanges_forEach st (changedRows (rowOrder st) pageOrder) [] = Inr r"
    by blast
  then show ?thesis
    by (cases r; cases settled) (simp_all add: saveChanges_def Let_def)
qed

lemma saveChanges_returns_list_all:
  fixes st :: "('i, 'v, 'e) customizer"
  assumes len: "length pageOrder \<le> length (rowMap st)"
    and rng: "list_all (\<lambda>x. arrayGetNum (rowMap st) x \<noteq> None) pageOrder"
  shows "\<exists>st'. saveChanges st pageOrder settled = Inr st'"
proof -
  have "\<forall>x \<in> set pageOrder. \<exists>k<length (rowMap st). x = Num (int k)"
    using rng by (auto simp: list_all_iff dest: arrayGetNum_Some)
  with len show ?thesis by (rule saveChanges_returns)
qed

lemma saveChanges_Inr:
  fixes st :: "('i, 'v, 'e) customizer"
  assumes "saveChanges st pageOrder settled = Inr st'"
  shows "\<exists>itemBatch.
    saveChanges_forEach st (changedRows (rowOrder st) pageOrder) [] =
      Inr (st\<lparr>loading := loading st @ map listIndex (changedRows (rowOrder st) pageOrder)\<rparr>,
           itemBatch) \<and>
    st' = (case settled of
             Resolved \<Rightarrow>
               st\<lparr>rowOrder := pageOrder, sortable := True, loading := [],
                  batches := batches st @ [itemBatch]\<rparr>
           | Rejected err \<Rightarrow>
               st\<lparr>loading := loading st @ map listIndex (changedRows (rowOrder st) pageOrder),
                  batches := batches st @ [itemBatch],
                  errorLog := errorLog st @ [err]\<rparr>)"
proof -
  from assms obtain st1 itemBatch where
    fe: "saveChanges_forEach st (changedRows (rowOrder st) pageOrder) [] = Inr (st1, itemBatch)"
    by (auto simp: saveChanges_def Let_def split: sum.splits)
  from saveChanges_forEach_state [OF fe]
  have st1: "st1 = st\<lparr>loading := loading st @ map listIndex (changedRows (rowOrder st) pageOrder)\<rparr>" .
  from assms fe have "st' = (case settled of
        Resolved \<Rightarrow> (hideLoading (st1\<lparr>batches := batches st1 @ [itemBatch]\<rparr>))
                      \<lparr>rowOrder := pageOrder, sortable := True\<rparr>
      | Rejected err \<Rightarrow> st1\<lparr>batches := batches st1 @ [itemBatch],
                             errorLog := errorLog st1 @ [err]\<rparr>)"
    by (auto simp: saveChanges_def Let_def split: batchResult.splits)
  then have "st' = (case settled of
             Resolved \<Rightarrow>
               st\<lparr>rowOrder := pageOrder, sortable := True, loading := [],
                  batches := batches st @ [itemBatch]\<rparr>
           | Rejected err \<Rightarrow>
               st\<lparr>loading := loading st @ map listIndex (changedRows (rowOrder st) pageOrder),
                  batches := batches st @ [itemBatch],
                  errorLog := errorLog st @ [err]\<rparr>)"
    unfolding st1 by (simp add: hideLoading_def split: batchResult.splits)
  with fe st1 show ?thesis by blast
qed

text \<open>
  C2 as stated fails: the key and the value are the other way round. After the
  rotation of three rows from \<open>[0,1,2]\<close> to \<open>[2,0,1]\<close>, row 2 sits at
  position 0; \<open>saveChanges\<close> gives item 303 (the row with list index 2) the
  Order value 5 (recorded for the row first at position 0), where the
  sentence asks for item 101 to receive 12. The two batches differ.
\<close>

theorem saveChanges_rotation_not_as_specified:
  "saveChanges_forEach
     \<lparr>rowOrder = [Num 0, Num 1, Num 2],
      rowMap = [\<lparr>Id' = 101::int, Order = 5::int\<rparr>, \<lparr>Id' = 202, Order = 9\<rparr>,
                \<lparr>Id' = 303, Order = 12\<rparr>],
      orderField = ''Order'', listId = ''list'', sortable = False, loading = [],
      batches = [], errorLog = ([] :: string list)\<rparr>
     (changedRows [Num 0, Num 1, Num 2] [Num 2, Num 0, Num 1]) [] =
   Inr (\<lparr>rowOrder = [Num 0, Num 1, Num 2],
         rowMap = [\<lparr>Id' = 101, Order = 5\<rparr>, \<lparr>Id' = 202, Order = 9\<rparr>,
                   \<lparr>Id' = 303, Order = 12\<rparr>],
         orderField = ''Order'', listId = ''list'', sortable = False,
         loading = [Num 2, Num 0, Num 1], batches = [], errorLog = []\<rparr>,
        [\<lparr>inList = ''list'', itemId = 303, fieldName = ''Order'', fieldValue = 5\<rparr>,
         \<lparr>inList = ''list'', itemId = 101, fieldName = ''Order'', fieldValue = 9\<rparr>,
         \<lparr>inList = ''list'', itemId = 202, fieldName = ''Order'', fieldValue = 12\<rparr>]) \<and>
   applyChanges_as_specified ''list'' ''Order''
     (changedRows [Num 0, Num 1, Num 2] [Num 2, Num 0, Num 1])
     [\<lparr>Id' = 101::int, Order = 5::int\<rparr>, \<lparr>Id' = 202, Order = 9\<rparr>,
      \<lparr>Id' = 303, Order = 12\<rparr>] =
     [\<lparr>inList = ''list'', itemId = 101, fieldName = ''Order'', fieldValue = 12\<rparr>,
      \<lparr>inList = ''list'', itemId = 202, fieldName = ''Order'', fieldValue = 5\<rparr>,
      \<lparr>inList = ''list'', itemId = 303, fieldName = ''Order'', fieldValue = 9\<rparr>] \<and>
   [\<lparr>inList = ''list'', itemId = 303::int, fieldName = ''Order'', fieldValue = 5::int\<rparr>,
    \<lparr>inList = ''list'', itemId = 101, fieldName = ''Order'', fieldValue = 9\<rparr>,
    \<lparr>inList = ''list'', itemId = 202, fieldName = ''Order'', fieldValue = 12\<rparr>] \<noteq>
   [\<lparr>inList = ''list'', itemId = 101, fieldName = ''Order'', fieldValue = 12\<rparr>,
    \<lparr>inList = ''list'', itemId = 202, fieldName = ''Order'', fieldValue = 5\<rparr>,
    \<lparr>inList = ''list'', itemId = 303, fieldName = ''Order'', fieldValue = 9\<rparr>]"
  by (simp add: changedRows_def changedRows_loop.simps arrayGet_def
        showLoading_def Let_def applyChanges_as_specified_def)

text \<open>
  C2, amended. For each entry of \<open>changedRows\<close>, in order, \<open>saveChanges\<close>
  queues one update: keyed by the ID of the row whose original index is the
  entry's \<open>listIndex\<close> (the row that now sits at \<open>position\<close>), and carrying
  the Order value recorded for the row whose original index is the entry's
  \<open>position\<close>. The batch holds nothing else and is executed once. When the
  page order is no longer than the row map and each of its numbers is an
  index of the row map, \<open>saveChanges\<close> does return.
\<close>

theorem saveChanges_updates:
  fixes st :: "('i, 'v, 'e) customizer"
  shows
  "(length pageOrder \<le> length (rowMap st) \<and>
    list_all (\<lambda>x. arrayGetNum (rowMap st) x \<noteq> None) pageOrder \<longrightarrow>
      (\<exists>st1. saveChanges st pageOrder settled = Inr st1)) \<and>
   (saveChanges st pageOrder settled = Inr st' \<longrightarrow>
      (\<exists>itemBatch.
         batches st' = batches st @ [itemBatch] \<and>
         length itemBatch = length (changedRows (rowOrder st) pageOrder) \<and>
         (\<forall>j<length (changedRows (rowOrder st) pageOrder). \<exists>k.
            listIndex (changedRows (rowOrder st) pageOrder ! j) = Num (int k) \<and>
            k < length (rowMap st) \<and>
            position (changedRows (rowOrder st) pageOrder ! j) < length (rowMap st) \<and>
            itemBatch ! j =
              \<lparr>inList = listId st, itemId = Id' (rowMap st ! k),
               fieldName = orderField st,
               fieldValue =
                 Order (rowMap st ! position (changedRows (rowOrder st) pageOrder ! j))\<rparr>)))"
proof (intro conjI impI)
  assume "length pageOrder \<le> length (rowMap st) \<and>
    list_all (\<lambda>x. arrayGetNum (rowMap st) x \<noteq> None) pageOrder"
  then show "\<exists>st1. saveChanges st pageOrder settled = Inr st1"
    using saveChanges_returns_list_all by blast
next
  let ?dirty = "changedRows (rowOrder st) pageOrder"
  assume "saveChanges st pageOrder settled = Inr st'"
  from saveChanges_Inr [OF this] obtain itemBatch where
    fe: "saveChanges_forEach st ?dirty [] =
           Inr (st\<lparr>loading := loading st @ map listIndex ?dirty\<rparr>, itemBatch)"
    and st': "st' = (case settled of
             Resolved \<Rightarrow>
               st\<lparr>rowOrder := pageOrder, sortable := True, loading := [],
                  batches := batches st @ [itemBatch]\<rparr>
           | Rejected err \<Rightarrow>
               st\<lparr>loading := loading st @ map listIndex ?dirty,
                  batches := batches st @ [itemBatch],
                  errorLog := errorLog st @ [err]\<rparr>)"
    by blast
  have b: "batches st' = batches st @ [itemBatch]"
    unfolding st' by (cases settled) simp_all
  from saveChanges_forEach_batch [OF fe] b
  show "\<exists>itemBatch.
         batches st' = batches st @ [itemBatch] \<and>
         length itemBatch = length ?dirty \<and>
         (\<forall>j<length ?dirty. \<exists>k.
            listIndex (?dirty ! j) = Num (int k) \<and>
            k < length (rowMap st) \<and>
            position (?dirty ! j) < length (rowMap st) \<and>
            itemBatch ! j =
              \<lparr>inList = listId st, itemId = Id' (rowMap st ! k),
               fieldName = orderField st,
               fieldValue = Order (rowMap st ! position (?dirty ! j))\<rparr>)"
    by auto
qed

theorem saveChanges_updates_witness:
  "let st = \<lparr>rowOrder = [Num 0, Num 1, Num 2],
             rowMap = [\<lparr>Id' = 101::int, Order = 5::int\<rparr>, \<lparr>Id' = 202, Order = 9\<rparr>,
                       \<lparr>Id' = 303, Order = 12\<rparr>],
             orderField = ''Order'', listId = ''list'', sortable = False, loading = [],
             batches = [], errorLog = ([] :: string list)\<rparr>;
       pageOrder = [Num 2, Num 0, Num 1];
       st' = st\<lparr>rowOrder := pageOrder, sortable := True,
               batches :=
                 [[\<lparr>inList = ''list'', itemId = 303, fieldName = ''Order'', fieldValue = 5\<rparr>,
                   \<lparr>inList = ''list'', itemId = 101, fieldName = ''Order'', fieldValue = 9\<rparr>,
                   \<lparr>inList = ''list'', itemId = 202, fieldName = ''Order'', fieldValue = 12\<rparr>]]\<rparr>
   in length pageOrder \<le> length (rowMap st) \<and>
      list_all (\<lambda>x. arrayGetNum (rowMap st) x \<noteq> None) pageOrder \<and>
      saveChanges st pageOrder Resolved = Inr st' \<and>
      (\<exists>itemBatch.
         batches st' = batches st @ [itemBatch] \<and>
         length itemBatch = length (changedRows (rowOrder st) pageOrder) \<and>
         (\<forall>j<length (changedRows (rowOrder st) pageOrder). \<exists>k.
            listIndex (changedRows (rowOrder st) pageOrder ! j) = Num (int k) \<and>
            k < length (rowMap st) \<and>
            position (changedRows (rowOrder st) pageOrder ! j) < length (rowMap st) \<and>
            itemBatch ! j =
              \<lparr>inList = listId st, itemId = Id' (rowMap st ! k),
               fieldName = orderField st,
               fieldValue =
                 Order (rowMap st ! position (changedRows (rowOrder st) pageOrder ! j))\<rparr>))"
  unfolding Let_def
proof (intro conjI)
  let ?st = "\<lparr>rowOrder = [Num 0, Num 1, Num 2],
             rowMap = [\<lparr>Id' = 101::int, Order = 5::int\<rparr>, \<lparr>Id' = 202, Order = 9\<rparr>,
                       \<lparr>Id' = 303, Order = 12\<rparr>],
             orderField = ''Order'', listId = ''list'', sortable = False, loading = [],
             batches = [], errorLog = ([] :: string list)\<rparr>"
  let ?p = "[Num 2, Num 0, Num 1]"
  let ?st' = "?st\<lparr>rowOrder := ?p, sortable := True,
               batches :=
                 [[\<lparr>inList = ''list'', itemId = 303, fieldName = ''Order'', fieldValue = 5\<rparr>,
                   \<lparr>inList = ''list'', itemId = 101, fieldName = ''Order'', fieldValue = 9\<rparr>,
                   \<lparr>inList = ''list'', itemId = 202, fieldName = ''Order'', fieldValue = 12\<rparr>]]\<rparr>"
  show h1: "length ?p \<le> length (rowMap ?st)" by simp
  show h2: "list_all (\<lambda>x. arrayGetNum (rowMap ?st) x \<noteq> None) ?p"
    by (simp add: arrayGet_def)
  show h3: "saveChanges ?st ?p Resolved = Inr ?st'"
    by (simp add: saveChanges_def changedRows_def changedRows_loop.simps arrayGet_def
          showLoading_def hideLoading_def Let_def)
  from saveChanges_updates [of ?p ?st Resolved ?st'] h3
  show "\<exists>itemBatch.
         batches ?st' = batches ?st @ [itemBatch] \<and>
         length itemBatch = length (changedRows (rowOrder ?st) ?p) \<and>
         (\<forall>j<length (changedRows (rowOrder ?st) ?p). \<exists>k.
            listIndex (changedRows (rowOrder ?st) ?p ! j) = Num (int k) \<and>
            k < length (rowMap ?st) \<and>
            position (changedRows (rowOrder ?st) ?p ! j) < length (rowMap ?st) \<and>
            itemBatch ! j =
              \<lparr>inList = listId ?st, itemId = Id' (rowMap ?st ! k),
               fieldName = orderField ?st,
               fieldValue =
                 Order (rowMap ?st ! position (changedRows (rowOrder ?st) ?p ! j))\<rparr>)"
    by blast
qed

text \<open>
  C3. With the rows \<open>{Id: 101, Order: 5}\<close> and \<open>{Id: 202, Order: 9}\<close> at the
  original indices 0 and 1, baseline \<open>[0,1]\<close> and observed order \<open>[1,0]\<close>,
  \<open>saveChanges\<close> executes one batch of exactly two updates: item 202 gets
  the Order value 5 and item 101 gets 9.
\<close>

theorem saveChanges_two_row_swap:
  "saveChanges
     \<lparr>rowOrder = [Num 0, Num 1],
      rowMap = [\<lparr>Id' = 101::int, Order = 5::int\<rparr>, \<lparr>Id' = 202, Order = 9\<rparr>],
      orderField = ''Order'', listId = ''list'', sortable = False, loading = [],
      batches = [], errorLog = ([] :: string list)\<rparr>
     [Num 1, Num 0] Resolved =
   Inr \<lparr>rowOrder = [Num 1, Num 0],
        rowMap = [\<lparr>Id' = 101, Order = 5\<rparr>, \<lparr>Id' = 202, Order = 9\<rparr>],
        orderField = ''Order'', listId = ''list'', sortable = True, loading = [],
        batches =
          [[\<lparr>inList = ''list'', itemId = 202, fieldName = ''Order'', fieldValue = 5\<rparr>,
            \<lparr>inList = ''list'', itemId = 101, fieldName = ''Order'', fieldValue = 9\<rparr>]],
        errorLog = []\<rparr>"
  by (simp add: saveChanges_def changedRows_def changedRows_loop.simps arrayGet_def
        showLoading_def hideLoading_def Let_def)

text \<open>
  C7. When the batch fails, \<open>saveChanges\<close> leaves the state as the
  \<open>forEach\<close> loop made it, but for the one batch it executed and the one
  error it logged: \<open>_rowOrder\<close> keeps the old order, the sortable is as it
  was, no second batch is executed. \<open>_rowOrder\<close> takes the new order, and
  the sortable is enabled, when the batch succeeds. Through \<open>onOrderChanged\<close>,
  which disables the sortable first, a failed batch leaves it disabled.
\<close>

theorem saveChanges_batch_failure:
  fixes st :: "('i, 'v, 'e) customizer"
  shows
  "(saveChanges st pageOrder (Rejected err) = Inr st1 \<longrightarrow>
      (\<exists>itemBatch.
         st1 = st\<lparr>loading := loading st @ map listIndex (changedRows (rowOrder st) pageOrder),
                  batches := batches st @ [itemBatch],
                  errorLog := errorLog st @ [err]\<rparr>) \<and>
      rowOrder st1 = rowOrder st \<and> sortable st1 = sortable st) \<and>
   (saveChanges st pageOrder Resolved = Inr st2 \<longrightarrow>
      rowOrder st2 = pageOrder \<and> sortable st2 \<and> errorLog st2 = errorLog st) \<and>
   (hasChanged (rowOrder st) pageOrder \<and>
    onOrderChanged st pageOrder (Rejected err) = Inr st3 \<longrightarrow>
      \<not> sortable st3 \<and> rowOrder st3 = rowOrder st \<and>
      errorLog st3 = errorLog st @ [err] \<and>
      length (batches st3) = Suc (length (batches st)))"
proof (intro conjI impI)
  assume "saveChanges st pageOrder (Rejected err) = Inr st1"
  from saveChanges_Inr [OF this] obtain itemBatch where
    e: "st1 = st\<lparr>loading := loading st @ map listIndex (changedRows (rowOrder st) pageOrder),
                  batches := batches st @ [itemBatch],
                  errorLog := errorLog st @ [err]\<rparr>"
    by auto
  then show "\<exists>itemBatch.
         st1 = st\<lparr>loading := loading st @ map listIndex (changedRows (rowOrder st) pageOrder),
                  batches := batches st @ [itemBatch],
                  errorLog := errorLog st @ [err]\<rparr>"
    by blast
  from e show "rowOrder st1 = rowOrder st" by simp
  from e show "sortable st1 = sortable st" by simp
next
  assume "saveChanges st pageOrder Resolved = Inr st2"
  from saveChanges_Inr [OF this] obtain itemBatch where
    e: "st2 = st\<lparr>rowOrder := pageOrder, sortable := True, loading := [],
                  batches := batches st @ [itemBatch]\<rparr>"
    by auto
  from e show "rowOrder st2 = pageOrder" by simp
  from e show "sortable st2" by simp
  from e show "errorLog st2 = errorLog st" by simp
next
  assume a: "hasChanged (rowOrder st) pageOrder \<and>
    onOrderChanged st pageOrder (Rejected err) = Inr st3"
  then have "saveChanges (st\<lparr>sortable := False\<rparr>) pageOrder (Rejected err) = Inr st3"
    by (auto simp: onOrderChanged_def Let_def)
  from saveChanges_Inr [OF this] obtain itemBatch where
    e: "st3 = st\<lparr>sortable := False,
                  loading := loading st @ map listIndex (changedRows (rowOrder st) pageOrder),
                  batches := batches st @ [itemBatch],
                  errorLog := errorLog st @ [err]\<rparr>"
    by auto
  from e show "\<not> sortable st3" by simp
  from e show "rowOrder st3 = rowOrder st" by simp
  from e show "errorLog st3 = errorLog st @ [err]" by simp
  from e show "length (batches st3) = Suc (length (batches st))" by simp
qed

theorem saveChanges_batch_failure_witness:
  "let st = \<lparr>rowOrder = [Num 0, Num 1],
             rowMap = [\<lparr>Id' = 101::int, Order = 5::int\<rparr>, \<lparr>Id' = 202, Order = 9\<rparr>],
             orderField = ''Order'', listId = ''list'', sortable = True, loading = [],
             batches = [], errorLog = []\<rparr>;
       pageOrder = [Num 1, Num 0];
       itemBatch =
         [\<lparr>inList = ''list'', itemId = 202, fieldName = ''Order'', fieldValue = 5\<rparr>,
          \<lparr>inList = ''list'', itemId = 101, fieldName = ''Order'', fieldValue = 9\<rparr>];
       st1 = st\<lparr>loading := [Num 1, Num 0], batches := [itemBatch],
               errorLog := [''500'']\<rparr>;
       st2 = st\<lparr>rowOrder := pageOrder, batches := [itemBatch]\<rparr>;
       st3 = st1\<lparr>sortable := False\<rparr>
   in saveChanges st pageOrder (Rejected ''500'') = Inr st1 \<and>
      rowOrder st1 = rowOrder st \<and> sortable st1 = sortable st \<and>
      saveChanges st pageOrder Resolved = Inr st2 \<and>
      rowOrder st2 = pageOrder \<and> sortable st2 \<and> errorLog st2 = errorLog st \<and>
      hasChanged (rowOrder st) pageOrder \<and>
      onOrderChanged st pageOrder (Rejected ''500'') = Inr st3 \<and>
      \<not> sortable st3 \<and> rowOrder st3 = rowOrder st \<and>
      errorLog st3 = errorLog st @ [''500''] \<and>
      length (batches st3) = Suc (length (batches st))"
  unfolding Let_def
proof (intro conjI)
  let ?st = "\<lparr>rowOrder = [Num 0, Num 1],
             rowMap = [\<lparr>Id' = 101::int, Order = 5::int\<rparr>, \<lparr>Id' = 202, Order = 9\<rparr>],
             orderField = ''Order'', listId = ''list'', sortable = True, loading = [],
             batches = [], errorLog = ([] :: string list)\<rparr>"
  let ?p = "[Num 1, Num 0]"
  let ?b = "[\<lparr>inList = ''list'', itemId = 202::int, fieldName = ''Order'', fieldValue = 5::int\<rparr>,
          \<lparr>inList = ''list'', itemId = 101, fieldName = ''Order'', fieldValue = 9\<rparr>]"
  let ?st1 = "?st\<lparr>loading := [Num 1, Num 0], batches := [?b], errorLog := [''500'']\<rparr>"
  let ?st2 = "?st\<lparr>rowOrder := ?p, batches := [?b]\<rparr>"
  let ?st3 = "?st1\<lparr>sortable := False\<rparr>"
  show h1: "saveChanges ?st ?p (Rejected ''500'') = Inr ?st1"
    by (simp add: saveChanges_def changedRows_def changedRows_loop.simps arrayGet_def
          showLoading_def hideLoading_def Let_def)
  show h2: "saveChanges ?st ?p Resolved = Inr ?st2"
    by (simp add: saveChanges_def changedRows_def changedRows_loop.simps arrayGet_def
          showLoading_def hideLoading_def Let_def)
  show h3: "hasChanged (rowOrder ?st) ?p"
    by (simp add: hasChanged_def hasChanged_loop.simps arrayGet_def)
  show h4: "onOrderChanged ?st ?p (Rejected ''500'') = Inr ?st3"
    by (simp add: onOrderChanged_def hasChanged_def hasChanged_loop.simps
          saveChanges_def changedRows_def changedRows_loop.simps arrayGet_def
          showLoading_def hideLoading_def Let_def)
  note t = saveChanges_batch_failure [of ?st ?p "''500''" ?st1 ?st2 ?st3]
  note c1 = t [THEN conjunct1, THEN mp, OF h1, THEN conjunct2]
  note c2 = t [THEN conjunct2, THEN conjunct1, THEN mp, OF h2]
  note c3 = t [THEN conjunct2, THEN conjunct2, THEN mp, OF conjI [OF h3 h4]]
  show "rowOrder ?st1 = rowOrder ?st"
    by (rule c1 [THEN conjunct1])
  show "sortable ?st1 = sortable ?st"
    by (rule c1 [THEN conjunct2])
  show "rowOrder ?st2 = ?p"
    by (rule c2 [THEN conjunct1])
  show "sortable ?st2"
    by (rule c2 [THEN conjunct2, THEN conjunct1])
  show "errorLog ?st2 = errorLog ?st"
    by (rule c2 [THEN conjunct2, THEN conjunct2])
  show "\<not> sortable ?st3"
    by (rule c3 [THEN conjunct1])
  show "rowOrder ?st3 = rowOrder ?st"
    by (rule c3 [THEN conjunct2, THEN conjunct1])
  show "errorLog ?st3 = errorLog ?st @ [''500'']"
    by (rule c3 [THEN conjunct2, THEN conjunct2, THEN conjunct1])
  show "length (batches ?st3) = Suc (length (batches ?st))"
    by (rule c3 [THEN conjunct2, THEN conjunct2, THEN conjunct2])
qed

text \<open>
  C5. An ordering compared with itself gives no entry. The tokens of an
  ordering are integers; \<open>NaN\<close>, which \<open>parseInt\<close> returns for a row without
  a list index, differs from itself. After a batch that succeeded
  \<open>_rowOrder\<close> is the observed order, so that comparing again with the same
  observed order gives no entry either.
\<close>

theorem changedRows_same_ordering:
  "NaN \<notin> set ord \<Longrightarrow>
   changedRows ord ord = [] \<and>
   (saveChanges st ord Resolved = Inr st' \<longrightarrow>
      rowOrder st' = ord \<and> changedRows (rowOrder st') ord = [])"
proof -
  assume n: "NaN \<notin> set ord"
  have "rowOrder st' = ord" if "saveChanges st ord Resolved = Inr st'"
    using saveChanges_Inr [OF that] by auto
  with changedRows_same [OF n] show ?thesis by simp
qed

theorem changedRows_same_ordering_witness:
  "let st = \<lparr>rowOrder = [Num 0, Num 1],
             rowMap = [\<lparr>Id' = 101::int, Order = 5::int\<rparr>, \<lparr>Id' = 202, Order = 9\<rparr>],
             orderField = ''Order'', listId = ''list'', sortable = False, loading = [],
             batches = [], errorLog = ([] :: string list)\<rparr>;
       ord = [Num 1, Num 0];
       st' = st\<lparr>rowOrder := ord, sortable := True,
               batches :=
                 [[\<lparr>inList = ''list'', itemId = 202, fieldName = ''Order'', fieldValue = 5\<rparr>,
                   \<lparr>inList = ''list'', itemId = 101, fieldName = ''Order'', fieldValue = 9\<rparr>]]\<rparr>
   in NaN \<notin> set ord \<and>
      changedRows ord ord = [] \<and>
      saveChanges st ord Resolved = Inr st' \<and>
      rowOrder st' = ord \<and> changedRows (rowOrder st') ord = []"
  unfolding Let_def
proof (intro conjI)
  let ?st = "\<lparr>rowOrder = [Num 0, Num 1],
             rowMap = [\<lparr>Id' = 101::int, Order = 5::int\<rparr>, \<lparr>Id' = 202, Order = 9\<rparr>],
             orderField = ''Order'', listId = ''list'', sortable = False, loading = [],
             batches = [], errorLog = ([] :: string list)\<rparr>"
  let ?ord = "[Num 1, Num 0]"
  let ?st' = "?st\<lparr>rowOrder := ?ord, sortable := True,
               batches :=
                 [[\<lparr>inList = ''list'', itemId = 202, fieldName = ''Order'', fieldValue = 5\<rparr>,
                   \<lparr>inList = ''list'', itemId = 101, fieldName = ''Order'', fieldValue = 9\<rparr>]]\<rparr>"
  show n: "NaN \<notin> set ?ord" by simp
  show s: "saveChanges ?st ?ord Resolved = Inr ?st'"
    by (simp add: saveChanges_def changedRows_def changedRows_loop.simps arrayGet_def
          showLoading_def hideLoading_def Let_def)
  note t = changedRows_same_ordering [OF n, of ?st ?st']
  note c = t [THEN conjunct2, THEN mp, OF s]
  show "changedRows ?ord ?ord = []"
    by (rule t [THEN conjunct1])
  show "rowOrder ?st' = ?ord"
    by (rule c [THEN conjunct1])
  show "changedRows (rowOrder ?st') ?ord = []"
    by (rule c [THEN conjunct2])
qed

end
